theory Spec2Isabelle
  imports Main "HOL-Library.Word"
begin

section \<open>The peer identifier registry of the txvotepool reactor\<close>

text \<open>
  Embedding of \<^verbatim>\<open>src/txvotepool/reactor.go\<close>. A \<^verbatim>\<open>uint16\<close> is a \<open>16 word\<close>, so
  \<^verbatim>\<open>nextID++\<close> wraps from 65535 to 0 as in Go. A \<^verbatim>\<open>p2p.ID\<close> is a Go string; a peer
  is represented by the value of its \<^verbatim>\<open>ID()\<close>.
\<close>

type_synonym uint16 = "16 word"
type_synonym int64 = "64 word"
type_synonym p2p_ID = string

text \<open>The constants of the \<^verbatim>\<open>const\<close> block.\<close>

definition TxpoolChannel :: "8 word" where
  "TxpoolChannel = 0x31"

definition maxMsgSize :: nat where
  "maxMsgSize = 1048576"

definition maxTxSize :: nat where
  "maxTxSize = maxMsgSize - 8"

definition peerCatchupSleepIntervalMS :: nat where
  "peerCatchupSleepIntervalMS = 100"

definition UnknownPeerID :: uint16 where
  "UnknownPeerID = 0"

definition maxActiveIDs :: nat where
  "maxActiveIDs = 65535"

text \<open>
  \<^verbatim>\<open>txpoolIDs\<close>: the mutex is left out (every method holds it for its whole body, so
  the methods are atomic state transformers). \<^verbatim>\<open>activeIDs\<close> is a Go map to the
  empty struct, that is a set; \<^verbatim>\<open>len(activeIDs)\<close> is its cardinality.
\<close>

record txpoolIDs =
  peerMap :: "p2p_ID \<rightharpoonup> uint16"
  nextID :: uint16
  activeIDs :: "uint16 set"

text \<open>The only panic of the file, raised by \<^verbatim>\<open>nextPeerID\<close>; it carries the number printed.\<close>

datatype panic = MaxActiveIDsPanic nat

text \<open>
  The probing loop of \<^verbatim>\<open>nextPeerID\<close>:
  \<^verbatim>\<open>for idExists { ids.nextID++; _, idExists = ids.activeIDs[ids.nextID] }\<close>.
  It returns the cursor on which it stops. Nothing in the loop bounds the number of
  iterations, so not returning is the value \<open>None\<close>.
\<close>

partial_function (option) probe :: "uint16 set \<Rightarrow> uint16 \<Rightarrow> uint16 option" where
  "probe active n = (if n \<in> active then probe active (n + 1) else Some n)"

declare probe.simps [code]

text \<open>
  \<^verbatim>\<open>nextPeerID\<close> returns the identifier together with the registry whose cursor has
  moved past it.
\<close>

definition nextPeerID :: "txpoolIDs \<Rightarrow> (panic + uint16 \<times> txpoolIDs) option" where
  "nextPeerID ids =
     (if card (activeIDs ids) = maxActiveIDs then Some (Inl (MaxActiveIDsPanic maxActiveIDs))
      else case probe (activeIDs ids) (nextID ids) of
             None \<Rightarrow> None
           | Some curID \<Rightarrow> Some (Inr (curID, ids\<lparr>nextID := curID + 1\<rparr>)))"

definition ReserveForPeer :: "txpoolIDs \<Rightarrow> p2p_ID \<Rightarrow> (panic + txpoolIDs) option" where
  "ReserveForPeer ids peer =
     (case nextPeerID ids of
        None \<Rightarrow> None
      | Some (Inl p) \<Rightarrow> Some (Inl p)
      | Some (Inr (curID, ids')) \<Rightarrow>
          Some (Inr (ids'\<lparr>peerMap := (peerMap ids')(peer \<mapsto> curID),
                          activeIDs := insert curID (activeIDs ids')\<rparr>)))"

definition Reclaim :: "txpoolIDs \<Rightarrow> p2p_ID \<Rightarrow> txpoolIDs" where
  "Reclaim ids peer =
     (case peerMap ids peer of
        Some removedID \<Rightarrow>
          ids\<lparr>activeIDs := activeIDs ids - {removedID},
              peerMap := (peerMap ids)(peer := None)\<rparr>
      | None \<Rightarrow> ids)"

text \<open>Reading a missing key of a Go map gives the zero value.\<close>

definition GetForPeer :: "txpoolIDs \<Rightarrow> p2p_ID \<Rightarrow> uint16" where
  "GetForPeer ids peer = (case peerMap ids peer of Some i \<Rightarrow> i | None \<Rightarrow> 0)"

definition newTxpoolIDs :: txpoolIDs where
  "newTxpoolIDs = \<lparr>peerMap = Map.empty, nextID = 1, activeIDs = {0}\<rparr>"

text \<open>
  A sequence of calls on the registry, run from left to right. A panic ends the run,
  as it ends the process.
\<close>

datatype call = Reserve p2p_ID | ReclaimCall p2p_ID

fun runCalls :: "txpoolIDs \<Rightarrow> call list \<Rightarrow> (panic + txpoolIDs) option" where
  "runCalls ids [] = Some (Inr ids)"
| "runCalls ids (Reserve p # cs) =
     (case ReserveForPeer ids p of
        None \<Rightarrow> None
      | Some (Inl e) \<Rightarrow> Some (Inl e)
      | Some (Inr ids') \<Rightarrow> runCalls ids' cs)"
| "runCalls ids (ReclaimCall p # cs) = runCalls (Reclaim ids p) cs"

text \<open>
  The lifecycle the reactor follows (\<^verbatim>\<open>AddPeer\<close> once per connected peer): a peer is
  reserved only while it has no mapping. The first argument is the set of peers that
  have one.
\<close>

fun lifecycle :: "p2p_ID set \<Rightarrow> call list \<Rightarrow> bool" where
  "lifecycle C [] = True"
| "lifecycle C (Reserve p # cs) = (p \<notin> C \<and> lifecycle (insert p C) cs)"
| "lifecycle C (ReclaimCall p # cs) = lifecycle (C - {p}) cs"

section \<open>Messages\<close>

type_synonym byte = "8 word"

text \<open>
  A decoded \<^verbatim>\<open>TxpoolMessage\<close> (an empty interface in the source). \<^verbatim>\<open>TxMessage\<close> is
  the one concrete type the reactor knows; \<open>OtherMessage\<close> stands for a value of any
  other dynamic type, the \<^verbatim>\<open>default\<close> arm of the type switch in \<^verbatim>\<open>Receive\<close>. The
  transaction type \<^verbatim>\<open>types.TxVote\<close> is a type parameter.
\<close>

datatype 'tx TxpoolMessage = TxMessage 'tx | OtherMessage

text \<open>
  Errors: the one built by \<^verbatim>\<open>decodeMsg\<close> with its two numbers, and the errors
  returned by the collaborators (the amino codec, the pool), which are opaque here.
\<close>

datatype error = MsgExceedsMaxSize nat nat | ExternalError string

text \<open>
  The amino codec \<^verbatim>\<open>cdc\<close> is a package variable defined outside
  \<^verbatim>\<open>reactor.go\<close>; its two methods used here are parameters.
\<close>

record 'tx codec =
  MustMarshalBinaryBare :: "'tx TxpoolMessage \<Rightarrow> byte list"
  UnmarshalBinaryBare :: "byte list \<Rightarrow> error + 'tx TxpoolMessage"

definition decodeMsg :: "'tx codec \<Rightarrow> byte list \<Rightarrow> error + 'tx TxpoolMessage" where
  "decodeMsg cdc bz =
     (if length bz > maxMsgSize then Inl (MsgExceedsMaxSize (length bz) maxMsgSize)
      else UnmarshalBinaryBare cdc bz)"

section \<open>The reactor\<close>

text \<open>
  Of \<^verbatim>\<open>cfg.MempoolConfig\<close> only \<^verbatim>\<open>Broadcast\<close> is read. The pool, the logger and the
  switch are collaborators: a call to one of them is recorded as an effect, in the
  order of the calls, and what the collaborator answers is an argument.
\<close>

record MempoolConfig =
  Broadcast :: bool

record TxpoolReactor =
  config :: MempoolConfig
  ids :: txpoolIDs

datatype 'tx effect =
    Logger_Info string
  | Logger_Error string
  | Logger_Debug string
  | StopPeerForError p2p_ID error
  | CheckTxWithInfo 'tx uint16
  | Send p2p_ID byte "byte list"
  | Sleep nat
  | Go_broadcastTxRoutine p2p_ID

definition NewTxpoolReactor :: "MempoolConfig \<Rightarrow> TxpoolReactor" where
  "NewTxpoolReactor cfg = \<lparr>config = cfg, ids = newTxpoolIDs\<rparr>"

text \<open>\<^verbatim>\<open>OnStart\<close> returns the nil error, \<open>None\<close>.\<close>

definition OnStart :: "TxpoolReactor \<Rightarrow> 'tx effect list \<times> error option" where
  "OnStart txR =
     (if \<not> Broadcast (config txR) then ([Logger_Info ''Tx broadcasting is disabled''], None)
      else ([], None))"

definition AddPeer :: "TxpoolReactor \<Rightarrow> p2p_ID \<Rightarrow> (panic + 'tx effect list \<times> TxpoolReactor) option" where
  "AddPeer txR peer =
     (case ReserveForPeer (ids txR) peer of
        None \<Rightarrow> None
      | Some (Inl p) \<Rightarrow> Some (Inl p)
      | Some (Inr ids') \<Rightarrow> Some (Inr ([Go_broadcastTxRoutine peer], txR\<lparr>ids := ids'\<rparr>)))"

definition RemovePeer :: "TxpoolReactor \<Rightarrow> p2p_ID \<Rightarrow> TxpoolReactor" where
  "RemovePeer txR peer = txR\<lparr>ids := Reclaim (ids txR) peer\<rparr>"

text \<open>
  \<^verbatim>\<open>Receive\<close>. The second argument is the answer of \<^verbatim>\<open>Txpool.CheckTxWithInfo\<close> to a
  transaction and the \<^verbatim>\<open>PeerID\<close> of its \<^verbatim>\<open>TxVoteInfo\<close>: \<open>None\<close> is the nil error.
\<close>

definition Receive ::
  "'tx codec \<Rightarrow> ('tx \<Rightarrow> uint16 \<Rightarrow> error option) \<Rightarrow> TxpoolReactor \<Rightarrow> byte \<Rightarrow> p2p_ID \<Rightarrow> byte list
     \<Rightarrow> 'tx effect list \<times> TxpoolReactor" where
  "Receive cdc pool txR chID src msgBytes =
     (case decodeMsg cdc msgBytes of
        Inl err \<Rightarrow>
          ([Logger_Error ''Error decoding message'', StopPeerForError src err], txR)
      | Inr msg \<Rightarrow>
          (case msg of
             TxMessage t \<Rightarrow>
               (let peerID = GetForPeer (ids txR) src in
                case pool t peerID of
                  Some err \<Rightarrow>
                    ([Logger_Debug ''Receive'', CheckTxWithInfo t peerID,
                      Logger_Info ''Could not check tx''], txR)
                | None \<Rightarrow> ([Logger_Debug ''Receive'', CheckTxWithInfo t peerID], txR))
           | OtherMessage \<Rightarrow>
               ([Logger_Debug ''Receive'', Logger_Error ''Unknown message type''], txR)))"

section \<open>The broadcast routine\<close>

text \<open>
  Modelled from the spec: the type \<^verbatim>\<open>mempoolTxVote\<close> is declared outside
  \<^verbatim>\<open>reactor.go\<close>. A pending entry has the transaction payload, the height at which
  the pool accepted it (\<^verbatim>\<open>Height()\<close>, an \<^verbatim>\<open>int64\<close>) and the set of PeerIDs known to
  have it (\<^verbatim>\<open>senders\<close>, on which the routine only calls \<^verbatim>\<open>Load\<close>).
\<close>

record 'tx mempoolTxVote =
  height :: int64
  tx :: 'tx
  senders :: "uint16 set"

text \<open>
  What a \<^verbatim>\<open>select\<close> of the routine yields: the awaited channel with the element then
  read (\<^verbatim>\<open>TxsFront()\<close>, \<^verbatim>\<open>next.Next()\<close>; \<open>None\<close> is nil), or one of the two quit
  channels. Elements of the pool's list are handles of type \<open>'e\<close>.
\<close>

datatype 'e selected = Ready "'e option" | PeerQuit | ReactorQuit

text \<open>
  The answers of the collaborators during one pass through the body of the \<^verbatim>\<open>for\<close>
  loop. They may differ from pass to pass: the pool and the peer change concurrently.
\<close>

record ('e, 'tx) answers =
  txR_IsRunning :: bool
  peer_IsRunning :: bool
  select_TxsWait :: "'e selected"
  Value :: "'e \<Rightarrow> 'tx mempoolTxVote"
  peer_GetHeight :: "int64 option"
  peer_Send :: "byte \<Rightarrow> byte list \<Rightarrow> bool"
  select_NextWait :: "'e selected"

text \<open>How a pass ends: \<^verbatim>\<open>return\<close>, or the next pass with the cursor \<^verbatim>\<open>next\<close>.\<close>

datatype 'e control = Return | Continue "'e option"

text \<open>The last \<^verbatim>\<open>select\<close> of the body, on \<^verbatim>\<open>next.NextWaitChan()\<close>.\<close>

definition advance :: "('e, 'tx) answers \<Rightarrow> 'e control" where
  "advance a =
     (case select_NextWait a of
        Ready n \<Rightarrow> Continue n
      | PeerQuit \<Rightarrow> Return
      | ReactorQuit \<Rightarrow> Return)"

text \<open>
  The body from \<^verbatim>\<open>txTx := next.Value\<close> on, for a cursor that is not nil.
  \<open>peer_GetHeight\<close> is \<open>None\<close> when the peer has no \<^verbatim>\<open>PeerState\<close> yet. The comparison
  is the signed one of \<^verbatim>\<open>int64\<close>, and \<^verbatim>\<open>Height()-1\<close> wraps.
\<close>

definition examine ::
  "'tx codec \<Rightarrow> p2p_ID \<Rightarrow> uint16 \<Rightarrow> ('e, 'tx) answers \<Rightarrow> 'e \<Rightarrow> 'tx effect list \<times> 'e control" where
  "examine cdc peer peerID a e =
     (let txTx = Value a e in
      case peer_GetHeight a of
        None \<Rightarrow> ([Sleep peerCatchupSleepIntervalMS], Continue (Some e))
      | Some h \<Rightarrow>
          if sint h < sint (height txTx - 1)
          then ([Sleep peerCatchupSleepIntervalMS], Continue (Some e))
          else if peerID \<notin> senders txTx
          then (let bz = MustMarshalBinaryBare cdc (TxMessage (tx txTx)) in
                if \<not> peer_Send a TxpoolChannel bz
                then ([Send peer TxpoolChannel bz, Sleep peerCatchupSleepIntervalMS],
                      Continue (Some e))
                else ([Send peer TxpoolChannel bz], advance a))
          else ([], advance a))"

text \<open>One pass through the body of the \<^verbatim>\<open>for\<close> loop with the cursor \<open>next\<close>.\<close>

definition iteration ::
  "'tx codec \<Rightarrow> p2p_ID \<Rightarrow> uint16 \<Rightarrow> ('e, 'tx) answers \<Rightarrow> 'e option
     \<Rightarrow> 'tx effect list \<times> 'e control" where
  "iteration cdc peer peerID a next =
     (if \<not> txR_IsRunning a \<or> \<not> peer_IsRunning a then ([], Return)
      else case next of
             Some e \<Rightarrow> examine cdc peer peerID a e
           | None \<Rightarrow>
               (case select_TxsWait a of
                  Ready None \<Rightarrow> ([], Continue None)
                | Ready (Some e) \<Rightarrow> examine cdc peer peerID a e
                | PeerQuit \<Rightarrow> ([], Return)
                | ReactorQuit \<Rightarrow> ([], Return)))"

text \<open>
  The loop, run on the answers of its successive passes. The source loop has no bound;
  when the answers are used up the routine has not returned, and the result tells with
  which cursor it goes on.
\<close>

datatype 'e status = Returned | Running "'e option"

fun broadcastLoop ::
  "'tx codec \<Rightarrow> p2p_ID \<Rightarrow> uint16 \<Rightarrow> 'e option \<Rightarrow> ('e, 'tx) answers list
     \<Rightarrow> 'tx effect list \<times> 'e status" where
  "broadcastLoop cdc peer peerID next [] = ([], Running next)"
| "broadcastLoop cdc peer peerID next (a # as) =
     (case iteration cdc peer peerID a next of
        (effs, Return) \<Rightarrow> (effs, Returned)
      | (effs, Continue n) \<Rightarrow>
          (case broadcastLoop cdc peer peerID n as of
             (effs', st) \<Rightarrow> (effs @ effs', st)))"

definition broadcastTxRoutine ::
  "'tx codec \<Rightarrow> TxpoolReactor \<Rightarrow> p2p_ID \<Rightarrow> ('e, 'tx) answers list
     \<Rightarrow> 'tx effect list \<times> 'e status" where
  "broadcastTxRoutine cdc txR peer as =
     (if \<not> Broadcast (config txR) then ([], Returned)
      else broadcastLoop cdc peer (GetForPeer (ids txR) peer) None as)"

section \<open>Test drivers\<close>

text \<open>
  Distinct peers for the runs below: the \<open>n\<close>-th peer's ID is \<open>n\<close> times the letter p.
  \<open>reservedUpTo n\<close> is the registry in which the peers 1 to \<open>n\<close> hold the identifiers
  1 to \<open>n\<close>.
\<close>

definition peerName :: "nat \<Rightarrow> p2p_ID" where
  "peerName n = replicate n (CHR ''p'')"

primrec seqMap :: "nat \<Rightarrow> (p2p_ID \<rightharpoonup> uint16)" where
  "seqMap 0 = Map.empty"
| "seqMap (Suc n) = (seqMap n)(peerName (Suc n) \<mapsto> of_nat (Suc n))"

definition reservedUpTo :: "nat \<Rightarrow> txpoolIDs" where
  "reservedUpTo n =
     \<lparr>peerMap = seqMap n, nextID = of_nat (Suc n), activeIDs = of_nat ` {0..n}\<rparr>"

text \<open>
  Collaborators for concrete runs of the reactor. The codec carries the payload as it
  is and rejects the empty frame; the pool rejects the transaction \<open>[2]\<close>; in the
  reactor the peer a holds the identifier 1. The pool's list has one entry at every
  handle: the transaction \<open>[1]\<close>, accepted at height 7, already received from peer 1.
  The answers are those of a pass in which everything runs, the list has the entry 0
  in front and 1 as its successor, the peer reports the height given and accepts a
  send.
\<close>

definition demoCodec :: "byte list codec" where
  "demoCodec =
     \<lparr>MustMarshalBinaryBare = (\<lambda>m. case m of TxMessage t \<Rightarrow> t | OtherMessage \<Rightarrow> []),
      UnmarshalBinaryBare =
        (\<lambda>b. if b = [] then Inl (ExternalError ''EOF'') else Inr (TxMessage b))\<rparr>"

definition demoPool :: "byte list \<Rightarrow> uint16 \<Rightarrow> error option" where
  "demoPool t i = (if t = [2] then Some (ExternalError ''invalid'') else None)"

definition demoReactor :: "bool \<Rightarrow> TxpoolReactor" where
  "demoReactor b =
     \<lparr>config = \<lparr>Broadcast = b\<rparr>,
      ids = \<lparr>peerMap = [''a'' \<mapsto> 1], nextID = 2, activeIDs = {0, 1}\<rparr>\<rparr>"

definition demoAnswers :: "int64 \<Rightarrow> (nat, byte list) answers" where
  "demoAnswers h =
     \<lparr>txR_IsRunning = True, peer_IsRunning = True, select_TxsWait = Ready (Some 0),
      Value = (\<lambda>e. \<lparr>height = 7, tx = [1], senders = {1}\<rparr>),
      peer_GetHeight = Some h, peer_Send = (\<lambda>c b. True),
      select_NextWait = Ready (Some 1)\<rparr>"

section \<open>Invariants of the registry\<close>

text \<open>
  \<open>idsInv\<close> holds in every state the calls can reach; \<open>idsExact\<close> is the invariant the
  comment on \<^verbatim>\<open>activeIDs\<close> describes.
\<close>

definition idsInv :: "txpoolIDs \<Rightarrow> bool" where
  "idsInv s \<longleftrightarrow> 0 \<in> activeIDs s \<and> ran (peerMap s) \<subseteq> activeIDs s - {0}
     \<and> inj_on (peerMap s) (dom (peerMap s)) \<and> card (activeIDs s) \<le> maxActiveIDs"

definition idsExact :: "txpoolIDs \<Rightarrow> bool" where
  "idsExact s \<longleftrightarrow> activeIDs s = insert 0 (ran (peerMap s))"


section \<open>The probing loop\<close>

lemma probe_in: "n \<in> A \<Longrightarrow> probe A n = probe A (n + 1)"
  by (subst probe.simps) simp

lemma probe_notin: "n \<notin> A \<Longrightarrow> probe A n = Some n"
  by (subst probe.simps) simp

lemma probe_steps:
  "(\<forall>j<k. n + of_nat j \<in> A) \<Longrightarrow> n + of_nat k \<notin> A \<Longrightarrow> probe A n = Some (n + of_nat k)"
proof (induction k arbitrary: n)
  case 0
  then show ?case by (simp add: probe_notin)
next
  case (Suc k)
  from Suc.prems(1) have "n \<in> A" by (drule_tac x=0 in spec) simp
  have "\<forall>j<k. (n + 1) + of_nat j \<in> A"
  proof (intro allI impI)
    fix j assume "j < k"
    then have "Suc j < Suc k" by simp
    with Suc.prems(1) have "n + of_nat (Suc j) \<in> A" by blast
    then show "(n + 1) + of_nat j \<in> A" by (simp add: ac_simps)
  qed
  moreover have "(n + 1) + of_nat k \<notin> A" using Suc.prems(2) by (simp add: ac_simps)
  ultimately have "probe A (n + 1) = Some ((n + 1) + of_nat k)" by (rule Suc.IH)
  then show ?case using \<open>n \<in> A\<close> by (simp add: probe_in ac_simps)
qed

lemma probe_Some_notin:
  assumes "probe A n = Some y" shows "y \<notin> A"
  using assms by (rule probe.raw_induct[rotated]) (auto split: if_splits)

lemma free_offset:
  assumes "A \<noteq> (UNIV :: uint16 set)"
  shows "\<exists>k. (\<forall>j<k. n + of_nat j \<in> A) \<and> n + of_nat k \<notin> A"
proof -
  from assms obtain x where "x \<notin> A" by auto
  then have "n + of_nat (unat (x - n)) \<notin> A" by simp
  then have ex: "\<exists>k. n + of_nat k \<notin> A" by blast
  define k where "k = (LEAST k. n + of_nat k \<notin> A)"
  have "n + of_nat k \<notin> A" unfolding k_def using ex by (rule LeastI_ex)
  moreover have "\<forall>j<k. n + of_nat j \<in> A" unfolding k_def using not_less_Least by blast
  ultimately show ?thesis by blast
qed

lemma probe_returns:
  assumes "A \<noteq> (UNIV :: uint16 set)"
  shows "\<exists>k. probe A n = Some (n + of_nat k) \<and> (\<forall>j<k. n + of_nat j \<in> A) \<and> n + of_nat k \<notin> A"
  using free_offset[OF assms, of n] probe_steps by blast

lemma probe_UNIV: "probe UNIV n = None"
proof (cases "probe UNIV n")
  case (Some y)
  then show ?thesis using probe_Some_notin by blast
qed simp

lemma card_lt_not_UNIV: "card (A :: uint16 set) \<le> maxActiveIDs \<Longrightarrow> A \<noteq> UNIV"
  by (auto simp: maxActiveIDs_def card_word)

lemma nextPeerID_panic:
  "card (activeIDs s) = maxActiveIDs \<Longrightarrow> nextPeerID s = Some (Inl (MaxActiveIDsPanic maxActiveIDs))"
  by (simp add: nextPeerID_def)

lemma nextPeerID_returns:
  assumes "card (activeIDs s) \<noteq> maxActiveIDs" "activeIDs s \<noteq> UNIV"
  shows "\<exists>k. nextPeerID s = Some (Inr (nextID s + of_nat k, s\<lparr>nextID := nextID s + of_nat k + 1\<rparr>))
           \<and> (\<forall>j<k. nextID s + of_nat j \<in> activeIDs s) \<and> nextID s + of_nat k \<notin> activeIDs s"
proof -
  from probe_returns[OF assms(2), of "nextID s"] obtain k where
    k: "probe (activeIDs s) (nextID s) = Some (nextID s + of_nat k)"
       "\<forall>j<k. nextID s + of_nat j \<in> activeIDs s" "nextID s + of_nat k \<notin> activeIDs s"
    by blast
  then show ?thesis using assms(1) by (auto simp: nextPeerID_def)
qed

lemma nextPeerID_Inr_notin:
  "nextPeerID s = Some (Inr (i, s')) \<Longrightarrow> i \<notin> activeIDs s \<and> s' = s\<lparr>nextID := i + 1\<rparr> \<and> card (activeIDs s) \<noteq> maxActiveIDs"
  by (auto simp: nextPeerID_def probe_Some_notin split: if_splits option.splits)

lemma ReserveForPeer_Inr:
  "ReserveForPeer s p = Some (Inr s') \<longleftrightarrow>
     (\<exists>i. nextPeerID s = Some (Inr (i, s\<lparr>nextID := i + 1\<rparr>)) \<and>
          s' = s\<lparr>nextID := i + 1, peerMap := (peerMap s)(p \<mapsto> i), activeIDs := insert i (activeIDs s)\<rparr>)"
  by (auto simp: ReserveForPeer_def split: option.splits sum.splits dest!: nextPeerID_Inr_notin)

lemma Reserve_inv:
  assumes "idsInv s" "ReserveForPeer s p = Some (Inr s')"
  shows "idsInv s'"
proof -
  from assms(2) obtain i where i: "nextPeerID s = Some (Inr (i, s\<lparr>nextID := i + 1\<rparr>))"
    and s': "s' = s\<lparr>nextID := i + 1, peerMap := (peerMap s)(p \<mapsto> i), activeIDs := insert i (activeIDs s)\<rparr>"
    by (auto simp: ReserveForPeer_Inr)
  from i have ni: "i \<notin> activeIDs s" and c: "card (activeIDs s) \<noteq> maxActiveIDs"
    by (auto dest: nextPeerID_Inr_notin)
  from assms(1) have z: "0 \<in> activeIDs s" and r: "ran (peerMap s) \<subseteq> activeIDs s - {0}"
    and inj: "inj_on (peerMap s) (dom (peerMap s))" and cl: "card (activeIDs s) \<le> maxActiveIDs"
    by (auto simp: idsInv_def)
  have i0: "i \<noteq> 0" using ni z by auto
  have inr: "i \<notin> ran (peerMap s)" using ni r by auto
  have 1: "ran ((peerMap s)(p \<mapsto> i)) \<subseteq> insert i (activeIDs s) - {0}"
    using r i0 by (auto simp: ran_def split: if_splits)
  have 2: "inj_on ((peerMap s)(p \<mapsto> i)) (dom ((peerMap s)(p \<mapsto> i)))"
    using inj inr by (auto simp: inj_on_def ran_def dom_def split: if_splits)
  have 3: "card (insert i (activeIDs s)) \<le> maxActiveIDs"
    using ni c cl by simp
  show ?thesis using z 1 2 3 by (simp add: idsInv_def s')
qed

lemma Reclaim_inv:
  assumes "idsInv s"
  shows "idsInv (Reclaim s p)"
proof (cases "peerMap s p")
  case None
  then show ?thesis using assms by (simp add: Reclaim_def)
next
  case (Some i)
  from assms have z: "0 \<in> activeIDs s" and r: "ran (peerMap s) \<subseteq> activeIDs s - {0}"
    and inj: "inj_on (peerMap s) (dom (peerMap s))" and cl: "card (activeIDs s) \<le> maxActiveIDs"
    by (auto simp: idsInv_def)
  have i0: "i \<noteq> 0" using Some r by (auto simp: ran_def)
  have 1: "ran ((peerMap s)(p := None)) \<subseteq> activeIDs s - {i} - {0}"
  proof
    fix j assume "j \<in> ran ((peerMap s)(p := None))"
    then obtain q where q: "q \<noteq> p" "peerMap s q = Some j" by (auto simp: ran_def split: if_splits)
    then have "j \<noteq> i" using inj Some by (auto simp: inj_on_def dom_def)
    moreover have "j \<in> activeIDs s - {0}" using q r by (auto simp: ran_def)
    ultimately show "j \<in> activeIDs s - {i} - {0}" by auto
  qed
  have 2: "inj_on ((peerMap s)(p := None)) (dom ((peerMap s)(p := None)))"
    using inj by (auto simp: inj_on_def dom_def split: if_splits)
  have "card (activeIDs s - {i}) \<le> card (activeIDs s)"
    by (rule card_mono) auto
  then have 3: "card (activeIDs s - {i}) \<le> maxActiveIDs" using cl by simp
  show ?thesis using z i0 1 2 3 Some by (simp add: idsInv_def Reclaim_def)
qed

lemma new_inv: "idsInv newTxpoolIDs"
  by (simp add: idsInv_def newTxpoolIDs_def maxActiveIDs_def)

lemma runCalls_inv:
  "idsInv s \<Longrightarrow> runCalls s cs = Some (Inr s') \<Longrightarrow> idsInv s'"
proof (induction s cs rule: runCalls.induct)
  case (1 ids)
  then show ?case by simp
next
  case (2 ids p cs)
  then show ?case by (auto split: option.splits sum.splits dest: Reserve_inv)
next
  case (3 ids p cs)
  then show ?case by (auto dest: Reclaim_inv)
qed

lemma runCalls_append:
  "runCalls s (cs @ ds) =
     (case runCalls s cs of None \<Rightarrow> None | Some (Inl e) \<Rightarrow> Some (Inl e) | Some (Inr s') \<Rightarrow> runCalls s' ds)"
  by (induction s cs rule: runCalls.induct) (auto split: option.splits sum.splits)

lemma Reserve_exact:
  assumes "idsInv s" "idsExact s" "peerMap s p = None" "ReserveForPeer s p = Some (Inr s')"
  shows "idsExact s'"
proof -
  from assms(4) obtain i where
    s': "s' = s\<lparr>nextID := i + 1, peerMap := (peerMap s)(p \<mapsto> i), activeIDs := insert i (activeIDs s)\<rparr>"
    by (auto simp: ReserveForPeer_Inr)
  have "ran ((peerMap s)(p \<mapsto> i)) = insert i (ran (peerMap s))"
    using assms(3) by simp
  then show ?thesis using assms(2) by (auto simp: idsExact_def s')
qed

lemma Reclaim_exact:
  assumes "idsInv s" "idsExact s"
  shows "idsExact (Reclaim s p)"
proof (cases "peerMap s p")
  case None
  then show ?thesis using assms by (simp add: Reclaim_def)
next
  case (Some i)
  from assms(1) have r: "ran (peerMap s) \<subseteq> activeIDs s - {0}"
    and inj: "inj_on (peerMap s) (dom (peerMap s))"
    by (auto simp: idsInv_def)
  have i0: "i \<noteq> 0" using Some r by (auto simp: ran_def)
  have "ran ((peerMap s)(p := None)) = ran (peerMap s) - {i}"
  proof (intro set_eqI iffI)
    fix j assume "j \<in> ran ((peerMap s)(p := None))"
    then obtain q where q: "q \<noteq> p" "peerMap s q = Some j" by (auto simp: ran_def split: if_splits)
    then have "j \<noteq> i" using inj Some by (auto simp: inj_on_def dom_def)
    then show "j \<in> ran (peerMap s) - {i}" using q by (auto simp: ran_def)
  next
    fix j assume "j \<in> ran (peerMap s) - {i}"
    then obtain q where q: "peerMap s q = Some j" "j \<noteq> i" by (auto simp: ran_def)
    then have "q \<noteq> p" using Some by auto
    then show "j \<in> ran ((peerMap s)(p := None))" using q by (auto simp: ran_def)
  qed
  then show ?thesis using assms(2) i0 Some by (auto simp: idsExact_def Reclaim_def)
qed

lemma dom_Reserve:
  "ReserveForPeer s p = Some (Inr s') \<Longrightarrow> dom (peerMap s') = insert p (dom (peerMap s))"
  by (auto simp: ReserveForPeer_Inr)

lemma dom_Reclaim: "dom (peerMap (Reclaim s p)) = dom (peerMap s) - {p}"
  by (auto simp: Reclaim_def split: option.splits)

lemma runCalls_exact:
  "idsInv s \<Longrightarrow> idsExact s \<Longrightarrow> lifecycle (dom (peerMap s)) cs \<Longrightarrow> runCalls s cs = Some (Inr s')
     \<Longrightarrow> idsExact s'"
proof (induction s cs rule: runCalls.induct)
  case (1 ids)
  then show ?case by simp
next
  case (2 ids p cs)
  from "2.prems"(4) obtain ids' where r: "ReserveForPeer ids p = Some (Inr ids')"
    and run: "runCalls ids' cs = Some (Inr s')"
    by (auto split: option.splits sum.splits)
  from "2.prems"(3) have un: "peerMap ids p = None" and lc: "lifecycle (insert p (dom (peerMap ids))) cs"
    by auto
  have "idsInv ids'" using "2.prems"(1) r by (rule Reserve_inv)
  moreover have "idsExact ids'" using "2.prems"(1,2) un r by (rule Reserve_exact)
  moreover have "lifecycle (dom (peerMap ids')) cs" using lc dom_Reserve[OF r] by simp
  ultimately show ?case using "2.IH"[OF r refl] run by blast
next
  case (3 ids p cs)
  then show ?case by (auto simp: dom_Reclaim Reclaim_inv Reclaim_exact)
qed

lemma new_exact: "idsExact newTxpoolIDs"
  by (simp add: idsExact_def newTxpoolIDs_def)

text \<open>
  C3. After any sequence of calls that has not panicked, 0 is active, no peer is mapped
  to 0 and every identifier in the image of the peer map is active. The active set is
  exactly that image plus 0 when the sequence follows the lifecycle (a peer is reserved
  only while it has no mapping).
\<close>

theorem active_is_image_of_peerMap:
  assumes "runCalls newTxpoolIDs cs = Some (Inr s)"
  shows "0 \<in> activeIDs s \<and> 0 \<notin> ran (peerMap s) \<and> ran (peerMap s) \<subseteq> activeIDs s
           \<and> (lifecycle {} cs \<longrightarrow> activeIDs s = insert 0 (ran (peerMap s)))"
proof -
  have inv: "idsInv s" using new_inv assms by (rule runCalls_inv)
  have "lifecycle {} cs \<Longrightarrow> idsExact s"
    using runCalls_exact[OF new_inv new_exact _ assms] by (simp add: newTxpoolIDs_def)
  then show ?thesis using inv by (auto simp: idsInv_def idsExact_def)
qed

lemma Reserve_new_a:
  "ReserveForPeer newTxpoolIDs ''a'' = Some (Inr \<lparr>peerMap = [''a'' \<mapsto> 1], nextID = 2, activeIDs = {0, 1}\<rparr>)"
  by (simp add: ReserveForPeer_def nextPeerID_def newTxpoolIDs_def maxActiveIDs_def probe_in probe_notin insert_commute)

theorem active_is_image_of_peerMap_witness:
  "runCalls newTxpoolIDs [Reserve ''a'']
     = Some (Inr \<lparr>peerMap = [''a'' \<mapsto> 1], nextID = 2, activeIDs = {0, 1}\<rparr>)
   \<and> lifecycle {} [Reserve ''a'']
   \<and> (0 :: uint16) \<in> {0, 1} \<and> (0 :: uint16) \<notin> ran [''a'' \<mapsto> 1]
   \<and> ran [''a'' \<mapsto> 1 :: uint16] \<subseteq> {0, 1}
   \<and> {0, 1 :: uint16} = insert 0 (ran [''a'' \<mapsto> 1])"
  using active_is_image_of_peerMap [of "[Reserve ''a'']"
      "\<lparr>peerMap = [''a'' \<mapsto> 1], nextID = 2, activeIDs = {0, 1}\<rparr>"]
  by (simp add: Reserve_new_a)

text \<open>
  Reserving the same peer twice leaves its first identifier active and unmapped: the
  active set is then larger than the image of the map plus 0.
\<close>

lemma run_double_reserve:
  "runCalls newTxpoolIDs [Reserve ''a'', Reserve ''a'']
     = Some (Inr \<lparr>peerMap = [''a'' \<mapsto> 2], nextID = 3, activeIDs = {0, 1, 2}\<rparr>)"
  by (simp add: ReserveForPeer_def nextPeerID_def newTxpoolIDs_def maxActiveIDs_def probe_in probe_notin insert_commute)

theorem double_reserve_counterexample:
  "runCalls newTxpoolIDs [Reserve ''a'', Reserve ''a'']
     = Some (Inr \<lparr>peerMap = [''a'' \<mapsto> 2], nextID = 3, activeIDs = {0, 1, 2}\<rparr>)
   \<and> {0, 1, 2 :: uint16} \<noteq> insert 0 (ran [''a'' \<mapsto> 2 :: uint16])"
proof -
  have "(1 :: uint16) \<in> {0, 1, 2}" by simp
  moreover have "(1 :: uint16) \<notin> insert 0 (ran [''a'' \<mapsto> 2 :: uint16])" by simp
  ultimately have "{0, 1, 2 :: uint16} \<noteq> insert 0 (ran [''a'' \<mapsto> 2 :: uint16])" by metis
  then show ?thesis using run_double_reserve by simp
qed

text \<open>
  After a and b are reserved and a is reclaimed, the identifier 1 is free; the next
  reserve allocates 3, the first free identifier from the cursor on.
\<close>

lemma run_abA:
  "runCalls newTxpoolIDs [Reserve ''a'', Reserve ''b'', ReclaimCall ''a'']
     = Some (Inr \<lparr>peerMap = [''b'' \<mapsto> 2], nextID = 3, activeIDs = {0, 2}\<rparr>)"
  by (simp add: ReserveForPeer_def Reclaim_def nextPeerID_def newTxpoolIDs_def maxActiveIDs_def probe_in probe_notin insert_commute fun_eq_iff)

lemma reserve_c:
  "ReserveForPeer \<lparr>peerMap = [''b'' \<mapsto> 2], nextID = 3, activeIDs = {0, 2}\<rparr> ''c''
     = Some (Inr \<lparr>peerMap = [''b'' \<mapsto> 2, ''c'' \<mapsto> 3], nextID = 4, activeIDs = {0, 2, 3}\<rparr>)"
  by (simp add: ReserveForPeer_def nextPeerID_def maxActiveIDs_def probe_in probe_notin insert_commute)

theorem next_free_not_smallest_counterexample:
  "runCalls newTxpoolIDs [Reserve ''a'', Reserve ''b'', ReclaimCall ''a'']
     = Some (Inr \<lparr>peerMap = [''b'' \<mapsto> 2], nextID = 3, activeIDs = {0, 2}\<rparr>)
   \<and> ReserveForPeer \<lparr>peerMap = [''b'' \<mapsto> 2], nextID = 3, activeIDs = {0, 2}\<rparr> ''c''
     = Some (Inr \<lparr>peerMap = [''b'' \<mapsto> 2, ''c'' \<mapsto> 3], nextID = 4, activeIDs = {0, 2, 3}\<rparr>)
   \<and> (1 :: uint16) \<notin> {0, 2} \<and> (1 :: uint16) \<noteq> 0 \<and> (1 :: uint16) < 3"
  using run_abA reserve_c by simp


lemma card_nonzero:
  assumes "idsInv s"
  shows "card (activeIDs s - {0}) = card (activeIDs s) - 1" "card (activeIDs s) \<ge> 1"
proof -
  have f: "finite (activeIDs s)" by simp
  have z: "0 \<in> activeIDs s" using assms by (simp add: idsInv_def)
  show "card (activeIDs s - {0}) = card (activeIDs s) - 1" using f z by simp
  show "card (activeIDs s) \<ge> 1" using f z by (metis One_nat_def Suc_leI card_gt_0_iff empty_iff)
qed

lemma Reserve_total:
  assumes "idsInv s"
  shows "(card (activeIDs s) = maxActiveIDs \<longrightarrow> ReserveForPeer s p = Some (Inl (MaxActiveIDsPanic maxActiveIDs)))
       \<and> (card (activeIDs s) \<noteq> maxActiveIDs \<longrightarrow> (\<exists>s'. ReserveForPeer s p = Some (Inr s')))"
proof -
  have nu: "activeIDs s \<noteq> UNIV" using assms card_lt_not_UNIV[of "activeIDs s"] by (simp add: idsInv_def)
  show ?thesis
    using nextPeerID_returns[OF _ nu] by (auto simp: ReserveForPeer_def nextPeerID_panic)
qed

text \<open>
  C1 (as the code has it). In every state the calls can reach, at most 65534 non-zero
  identifiers are active, \<^verbatim>\<open>ReserveForPeer\<close> panics exactly when 65534 of them are active
  (the active set, which counts the reserved 0, then has \<^verbatim>\<open>maxActiveIDs\<close> = 65535
  elements), and with fewer it returns a new registry.
\<close>

theorem reserve_panics_iff_65534_nonzero_active:
  assumes "runCalls newTxpoolIDs cs = Some (Inr s)"
  shows "card (activeIDs s - {0}) \<le> 65534
       \<and> (ReserveForPeer s p = Some (Inl (MaxActiveIDsPanic 65535))
            \<longleftrightarrow> card (activeIDs s - {0}) = 65534)
       \<and> (card (activeIDs s - {0}) < 65534 \<longrightarrow> (\<exists>s'. ReserveForPeer s p = Some (Inr s')))"
proof -
  have inv: "idsInv s" using new_inv assms by (rule runCalls_inv)
  have c: "card (activeIDs s - {0}) = card (activeIDs s) - 1" "card (activeIDs s) \<ge> 1"
    using card_nonzero[OF inv] by auto
  have le: "card (activeIDs s) \<le> 65535" using inv by (simp add: idsInv_def maxActiveIDs_def)
  have eq: "card (activeIDs s - {0}) = 65534 \<longleftrightarrow> card (activeIDs s) = maxActiveIDs"
    using c by (auto simp: maxActiveIDs_def)
  from Reserve_total[OF inv, of p] show ?thesis
    using c le eq by (auto simp: maxActiveIDs_def)
qed

theorem reserve_panics_iff_65534_nonzero_active_witness:
  "runCalls newTxpoolIDs [] = Some (Inr newTxpoolIDs)
   \<and> card (activeIDs newTxpoolIDs - {0}) < 65534
   \<and> (ReserveForPeer newTxpoolIDs ''a'' = Some (Inl (MaxActiveIDsPanic 65535))
            \<longleftrightarrow> card (activeIDs newTxpoolIDs - {0}) = 65534)
   \<and> (\<exists>s'. ReserveForPeer newTxpoolIDs ''a'' = Some (Inr s'))"
  using reserve_panics_iff_65534_nonzero_active [of "[]" newTxpoolIDs "''a''"]
  by (simp add: newTxpoolIDs_def)

text \<open>
  C2 (as the code has it). When fewer than \<^verbatim>\<open>maxActiveIDs\<close> identifiers are active,
  \<^verbatim>\<open>ReserveForPeer\<close> returns: it allocates the first identifier that is not active,
  probing from the cursor \<^verbatim>\<open>nextID\<close> upwards with wrap-around at 16 bits (every
  identifier between the cursor and the one allocated is active), records the mapping
  of the peer, marks the identifier active and leaves the cursor just behind it.
\<close>

theorem reserve_allocates_next_free_from_cursor:
  assumes "card (activeIDs s) < maxActiveIDs"
  shows "\<exists>k. ReserveForPeer s p
             = Some (Inr (s\<lparr>nextID := nextID s + of_nat k + 1,
                             peerMap := (peerMap s)(p \<mapsto> nextID s + of_nat k),
                             activeIDs := insert (nextID s + of_nat k) (activeIDs s)\<rparr>))
           \<and> nextID s + of_nat k \<notin> activeIDs s
           \<and> (\<forall>j<k. nextID s + of_nat j \<in> activeIDs s)"
proof -
  have nu: "activeIDs s \<noteq> UNIV" using assms card_lt_not_UNIV[of "activeIDs s"] by simp
  have ne: "card (activeIDs s) \<noteq> maxActiveIDs" using assms by simp
  from nextPeerID_returns[OF ne nu] obtain k where
    k: "nextPeerID s = Some (Inr (nextID s + of_nat k, s\<lparr>nextID := nextID s + of_nat k + 1\<rparr>))"
       "\<forall>j<k. nextID s + of_nat j \<in> activeIDs s" "nextID s + of_nat k \<notin> activeIDs s"
    by blast
  then show ?thesis by (intro exI[of _ k]) (simp add: ReserveForPeer_def)
qed

theorem reserve_allocates_next_free_from_cursor_witness:
  "card (activeIDs \<lparr>peerMap = [''b'' \<mapsto> 2], nextID = 3, activeIDs = {0, 2}\<rparr>) < maxActiveIDs
   \<and> (\<exists>k. ReserveForPeer \<lparr>peerMap = [''b'' \<mapsto> 2], nextID = 3, activeIDs = {0, 2}\<rparr> ''c''
             = Some (Inr \<lparr>peerMap = [''b'' \<mapsto> 2, ''c'' \<mapsto> 3 + of_nat k], nextID = 3 + of_nat k + 1,
                          activeIDs = insert (3 + of_nat k) {0, 2}\<rparr>)
           \<and> 3 + of_nat k \<notin> {0, 2 :: uint16}
           \<and> (\<forall>j<k. 3 + of_nat j \<in> {0, 2 :: uint16}))"
  using reserve_allocates_next_free_from_cursor
     [of "\<lparr>peerMap = [''b'' \<mapsto> 2], nextID = 3, activeIDs = {0, 2}\<rparr>" "''c''"]
  by (simp add: maxActiveIDs_def)

text \<open>
  C9. In every state the calls can reach, \<^verbatim>\<open>Reclaim\<close> of a peer without a mapping
  returns the registry unchanged (map, active set and cursor), and \<^verbatim>\<open>Reclaim\<close> of any
  peer leaves the mapping of every other peer as it was and that peer's identifier
  active.
\<close>

theorem reclaim_unmapped_noop_and_frame:
  assumes "runCalls newTxpoolIDs cs = Some (Inr s)"
  shows "(peerMap s p = None \<longrightarrow> Reclaim s p = s)
       \<and> (\<forall>q. q \<noteq> p \<longrightarrow>
             peerMap (Reclaim s p) q = peerMap s q
           \<and> GetForPeer (Reclaim s p) q = GetForPeer s q
           \<and> (\<forall>j. peerMap s q = Some j \<longrightarrow> j \<in> activeIDs s \<and> j \<in> activeIDs (Reclaim s p)))"
proof -
  have inv: "idsInv s" using new_inv assms by (rule runCalls_inv)
  have 1: "peerMap s p = None \<longrightarrow> Reclaim s p = s" by (simp add: Reclaim_def)
  have 2: "peerMap (Reclaim s p) q = peerMap s q" if "q \<noteq> p" for q
    using that by (simp add: Reclaim_def split: option.splits)
  have 3: "j \<in> activeIDs s \<and> j \<in> activeIDs (Reclaim s p)" if "q \<noteq> p" "peerMap s q = Some j" for q j
  proof -
    have a: "j \<in> activeIDs s" using inv that(2) by (auto simp: idsInv_def ran_def)
    have "peerMap s p \<noteq> Some j" using inv that by (auto simp: idsInv_def inj_on_def dom_def)
    then show ?thesis using a by (auto simp: Reclaim_def split: option.splits)
  qed
  show ?thesis using 1 2 3 by (simp add: GetForPeer_def)
qed

lemma card_Reserve:
  "ReserveForPeer s p = Some (Inr s') \<Longrightarrow> card (activeIDs s') = Suc (card (activeIDs s))"
  by (auto simp: ReserveForPeer_Inr dest!: nextPeerID_Inr_notin)

lemma reserves_succeed:
  "idsInv s \<Longrightarrow> card (activeIDs s) + length ps \<le> maxActiveIDs \<Longrightarrow>
     \<exists>s'. runCalls s (map Reserve ps) = Some (Inr s')"
proof (induction ps arbitrary: s)
  case Nil
  then show ?case by simp
next
  case (Cons p ps)
  from Cons.prems(2) have "card (activeIDs s) \<noteq> maxActiveIDs" by simp
  with Reserve_total[OF Cons.prems(1), of p] obtain s1 where
    s1: "ReserveForPeer s p = Some (Inr s1)" by blast
  have "idsInv s1" using Cons.prems(1) s1 by (rule Reserve_inv)
  moreover have "card (activeIDs s1) + length ps \<le> maxActiveIDs"
    using card_Reserve[OF s1] Cons.prems(2) by simp
  ultimately obtain s' where "runCalls s1 (map Reserve ps) = Some (Inr s')"
    using Cons.IH by blast
  then show ?case using s1 by simp
qed

lemma lifecycle_reserves:
  "distinct ps \<Longrightarrow> set ps \<inter> C = {} \<Longrightarrow> lifecycle C (map Reserve ps)"
  by (induction ps arbitrary: C) auto

lemma lifecycle_reclaims: "lifecycle C (map ReclaimCall ps)"
  by (induction ps arbitrary: C) auto

lemma dom_reserves:
  "runCalls s (map Reserve ps) = Some (Inr s') \<Longrightarrow> dom (peerMap s') = dom (peerMap s) \<union> set ps"
proof (induction ps arbitrary: s)
  case Nil
  then show ?case by simp
next
  case (Cons p ps)
  from Cons.prems obtain s1 where s1: "ReserveForPeer s p = Some (Inr s1)"
    and run: "runCalls s1 (map Reserve ps) = Some (Inr s')"
    by (auto split: option.splits sum.splits)
  show ?case using Cons.IH[OF run] dom_Reserve[OF s1] by auto
qed

lemma dom_reclaims:
  "runCalls s (map ReclaimCall ps) = Some (Inr s') \<Longrightarrow> dom (peerMap s') = dom (peerMap s) - set ps"
proof (induction ps arbitrary: s)
  case Nil
  then show ?case by simp
next
  case (Cons p ps)
  then show ?case using dom_Reclaim[of s p] by auto
qed

lemma reclaims_return: "\<exists>s'. runCalls s (map ReclaimCall ps) = Some (Inr s')"
  by (induction ps arbitrary: s) auto

lemma exact_empty_dom:
  assumes "idsExact s" "dom (peerMap s) = {}"
  shows "activeIDs s = {0}"
proof -
  have "peerMap s = Map.empty" using assms(2) by simp
  then show ?thesis using assms(1) by (simp add: idsExact_def)
qed

lemma reserve_reclaim_reserve_succeeds:
  assumes "distinct ps" "distinct qs" "length qs = length ps" "length ps < maxActiveIDs"
  shows "\<exists>s. runCalls newTxpoolIDs (map Reserve ps @ map ReclaimCall ps @ map Reserve qs) = Some (Inr s)"
proof -
  have c0: "card (activeIDs newTxpoolIDs) = 1" by (simp add: newTxpoolIDs_def)
  have d0: "dom (peerMap newTxpoolIDs) = {}" by (simp add: newTxpoolIDs_def)
  from reserves_succeed[OF new_inv, of ps] c0 assms(4) obtain s1 where
    s1: "runCalls newTxpoolIDs (map Reserve ps) = Some (Inr s1)" by auto
  have i1: "idsInv s1" using new_inv s1 by (rule runCalls_inv)
  have e1: "idsExact s1"
    using runCalls_exact[OF new_inv new_exact _ s1] lifecycle_reserves[OF assms(1), of "{}"] d0
    by simp
  have d1: "dom (peerMap s1) = set ps" using dom_reserves[OF s1] d0 by simp
  from reclaims_return obtain s2 where s2: "runCalls s1 (map ReclaimCall ps) = Some (Inr s2)"
    by blast
  have i2: "idsInv s2" using i1 s2 by (rule runCalls_inv)
  have e2: "idsExact s2" using runCalls_exact[OF i1 e1 lifecycle_reclaims s2] .
  have d2: "dom (peerMap s2) = {}" using dom_reclaims[OF s2] d1 by simp
  have c2: "card (activeIDs s2) = 1" using exact_empty_dom[OF e2 d2] by simp
  from reserves_succeed[OF i2, of qs] c2 assms(3,4) obtain s3 where
    s3: "runCalls s2 (map Reserve qs) = Some (Inr s3)" by auto
  show ?thesis using s1 s2 s3 by (simp add: runCalls_append)
qed

lemma run_prefix:
  assumes "runCalls s0 cs = Some (Inr sf)" "k < length cs"
  shows "\<exists>s. runCalls s0 (take k cs) = Some (Inr s) \<and> runCalls s (cs ! k # drop (Suc k) cs) = Some (Inr sf)"
proof -
  have "cs = take k cs @ (cs ! k # drop (Suc k) cs)"
    using assms(2) by (simp add: id_take_nth_drop[symmetric])
  then have "runCalls s0 (take k cs @ (cs ! k # drop (Suc k) cs)) = Some (Inr sf)"
    using assms(1) by simp
  then show ?thesis
    by (simp only: runCalls_append) (auto split: option.splits sum.splits)
qed

text \<open>
  C8. Reserving \<open>N\<close> distinct peers, reclaiming all of them and reserving \<open>N\<close> distinct
  peers again, for \<open>N\<close> up to 65534: no call panics or hangs, and every reserve call of
  the sequence hands out an identifier between 1 and 65535 that is not active in the
  registry on which it is called.
\<close>

theorem reserve_reclaim_reserve_ids_in_range_and_fresh:
  assumes "distinct ps" "distinct qs" "length qs = length ps" "length ps \<le> 65534"
    and "cs = map Reserve ps @ map ReclaimCall ps @ map Reserve qs"
  shows "(\<exists>sf. runCalls newTxpoolIDs cs = Some (Inr sf))
       \<and> (\<forall>k<length cs. \<forall>p. cs ! k = Reserve p \<longrightarrow>
            (\<exists>s i s'. runCalls newTxpoolIDs (take k cs) = Some (Inr s)
                 \<and> ReserveForPeer s p = Some (Inr s') \<and> peerMap s' p = Some i
                 \<and> 1 \<le> unat i \<and> unat i \<le> 65535 \<and> i \<notin> activeIDs s))"
proof -
  have lt: "length ps < maxActiveIDs" using assms(4) by (simp add: maxActiveIDs_def)
  from reserve_reclaim_reserve_succeeds[OF assms(1,2,3) lt] obtain sf where
    sf: "runCalls newTxpoolIDs cs = Some (Inr sf)" unfolding assms(5) by blast
  have "\<exists>s i s'. runCalls newTxpoolIDs (take k cs) = Some (Inr s)
                 \<and> ReserveForPeer s p = Some (Inr s') \<and> peerMap s' p = Some i
                 \<and> 1 \<le> unat i \<and> unat i \<le> 65535 \<and> i \<notin> activeIDs s"
    if k: "k < length cs" and p: "cs ! k = Reserve p" for k p
  proof -
    from run_prefix[OF sf k] obtain s where
      s: "runCalls newTxpoolIDs (take k cs) = Some (Inr s)"
      and rest: "runCalls s (Reserve p # drop (Suc k) cs) = Some (Inr sf)"
      using p by auto
    from rest obtain s' where s': "ReserveForPeer s p = Some (Inr s')"
      by (auto split: option.splits sum.splits)
    then obtain i where i: "nextPeerID s = Some (Inr (i, s\<lparr>nextID := i + 1\<rparr>))"
      and pm: "peerMap s' p = Some i"
      by (auto simp: ReserveForPeer_Inr)
    have inv: "idsInv s" using new_inv s by (rule runCalls_inv)
    have ni: "i \<notin> activeIDs s" using i by (auto dest: nextPeerID_Inr_notin)
    then have "i \<noteq> 0" using inv by (auto simp: idsInv_def)
    then have "1 \<le> unat i" by (simp add: unat_gt_0 Suc_leI)
    moreover have "unat i \<le> 65535" using unsigned_less[of i, where ?'a = nat] by simp
    ultimately show ?thesis using s s' pm ni by blast
  qed
  then show ?thesis using sf by blast
qed

theorem reserve_reclaim_reserve_ids_in_range_and_fresh_witness:
  "distinct [''a'', ''b''] \<and> distinct [''c'', ''d''] \<and> length [''c'', ''d''] = length [''a'', ''b'']
   \<and> length [''a'', ''b''] \<le> 65534
   \<and> (\<exists>sf. runCalls newTxpoolIDs
              [Reserve ''a'', Reserve ''b'', ReclaimCall ''a'', ReclaimCall ''b'', Reserve ''c'', Reserve ''d'']
            = Some (Inr sf))
   \<and> (\<exists>s i s'. runCalls newTxpoolIDs [Reserve ''a'', Reserve ''b'', ReclaimCall ''a'', ReclaimCall ''b'']
                   = Some (Inr s)
          \<and> ReserveForPeer s ''c'' = Some (Inr s') \<and> peerMap s' ''c'' = Some i
          \<and> 1 \<le> unat i \<and> unat i \<le> 65535 \<and> i \<notin> activeIDs s)"
proof -
  let ?cs = "[Reserve ''a'', Reserve ''b'', ReclaimCall ''a'', ReclaimCall ''b'', Reserve ''c'', Reserve ''d'']"
  have h: "distinct [''a'', ''b'']" "distinct [''c'', ''d'']"
    "length [''c'', ''d''] = length [''a'', ''b'']" "length [''a'', ''b''] \<le> 65534"
    "?cs = map Reserve [''a'', ''b''] @ map ReclaimCall [''a'', ''b''] @ map Reserve [''c'', ''d'']"
    by simp_all
  note t = reserve_reclaim_reserve_ids_in_range_and_fresh [OF h]
  from t have a: "\<exists>sf. runCalls newTxpoolIDs ?cs = Some (Inr sf)" by blast
  from t have "\<forall>k<length ?cs. \<forall>p. ?cs ! k = Reserve p \<longrightarrow>
            (\<exists>s i s'. runCalls newTxpoolIDs (take k ?cs) = Some (Inr s)
                 \<and> ReserveForPeer s p = Some (Inr s') \<and> peerMap s' p = Some i
                 \<and> 1 \<le> unat i \<and> unat i \<le> 65535 \<and> i \<notin> activeIDs s)" by blast
  from this[rule_format, of 4 "''c''"]
  have b: "\<exists>s i s'. runCalls newTxpoolIDs (take 4 ?cs) = Some (Inr s)
                 \<and> ReserveForPeer s ''c'' = Some (Inr s') \<and> peerMap s' ''c'' = Some i
                 \<and> 1 \<le> unat i \<and> unat i \<le> 65535 \<and> i \<notin> activeIDs s" by simp
  have "take 4 ?cs = [Reserve ''a'', Reserve ''b'', ReclaimCall ''a'', ReclaimCall ''b'']" by simp
  with b have b': "\<exists>s i s'. runCalls newTxpoolIDs [Reserve ''a'', Reserve ''b'', ReclaimCall ''a'', ReclaimCall ''b''] = Some (Inr s)
                 \<and> ReserveForPeer s ''c'' = Some (Inr s') \<and> peerMap s' ''c'' = Some i
                 \<and> 1 \<le> unat i \<and> unat i \<le> 65535 \<and> i \<notin> activeIDs s" by simp
  show ?thesis using h(1-4) a b' by blast
qed

theorem reclaim_unmapped_noop_and_frame_witness:
  "runCalls newTxpoolIDs [Reserve ''a'']
     = Some (Inr \<lparr>peerMap = [''a'' \<mapsto> 1], nextID = 2, activeIDs = {0, 1}\<rparr>)
   \<and> peerMap \<lparr>peerMap = [''a'' \<mapsto> 1], nextID = 2, activeIDs = {0, 1}\<rparr> ''b'' = None
   \<and> Reclaim \<lparr>peerMap = [''a'' \<mapsto> 1], nextID = 2, activeIDs = {0, 1}\<rparr> ''b''
       = \<lparr>peerMap = [''a'' \<mapsto> 1], nextID = 2, activeIDs = {0, 1}\<rparr>
   \<and> ''a'' \<noteq> ''b''
   \<and> peerMap \<lparr>peerMap = [''a'' \<mapsto> 1], nextID = 2, activeIDs = {0, 1 :: uint16}\<rparr> ''a'' = Some 1
   \<and> GetForPeer (Reclaim \<lparr>peerMap = [''a'' \<mapsto> 1], nextID = 2, activeIDs = {0, 1}\<rparr> ''b'') ''a'' = 1
   \<and> 1 \<in> activeIDs (Reclaim \<lparr>peerMap = [''a'' \<mapsto> 1], nextID = 2, activeIDs = {0, 1}\<rparr> ''b'')"
  using reclaim_unmapped_noop_and_frame [of "[Reserve ''a'']"
      "\<lparr>peerMap = [''a'' \<mapsto> 1], nextID = 2, activeIDs = {0, 1}\<rparr>" "''b''"]
  by (simp add: Reserve_new_a GetForPeer_def)

lemma unat_of_nat16: "n < 65536 \<Longrightarrow> unat (of_nat n :: uint16) = n"
  by (simp add: unat_of_nat)

lemma of_nat_notin_upto:
  assumes "n < m" "m < 65536"
  shows "(of_nat m :: uint16) \<notin> of_nat ` {0..n}"
proof
  assume "(of_nat m :: uint16) \<in> of_nat ` {0..n}"
  then obtain k where k: "k \<le> n" "(of_nat m :: uint16) = of_nat k" by auto
  then have "unat (of_nat m :: uint16) = unat (of_nat k :: uint16)" by simp
  then have "m = k" using assms k(1) by (simp add: unat_of_nat16)
  then show False using k(1) assms(1) by simp
qed

lemma card_upto16:
  assumes "n < 65536"
  shows "card ((of_nat :: nat \<Rightarrow> uint16) ` {0..n}) = Suc n"
proof -
  have "inj_on (of_nat :: nat \<Rightarrow> uint16) {0..n}"
    by (rule inj_on_inverseI[where g = unat]) (use assms in \<open>simp add: unat_of_nat16\<close>)
  then show ?thesis by (simp add: card_image)
qed

lemma Reserve_reservedUpTo:
  assumes "n < 65534"
  shows "ReserveForPeer (reservedUpTo n) (peerName (Suc n)) = Some (Inr (reservedUpTo (Suc n)))"
proof -
  have c: "card (activeIDs (reservedUpTo n)) \<noteq> maxActiveIDs"
    using assms card_upto16[of n] by (simp add: reservedUpTo_def maxActiveIDs_def)
  have ni: "(of_nat (Suc n) :: uint16) \<notin> of_nat ` {0..n}"
    using assms by (intro of_nat_notin_upto) simp_all
  have p: "probe (activeIDs (reservedUpTo n)) (nextID (reservedUpTo n)) = Some (of_nat (Suc n))"
    using ni by (simp add: reservedUpTo_def probe_notin)
  have "{0..Suc n} = insert (Suc n) {0..n}" by auto
  then have im: "(of_nat :: nat \<Rightarrow> uint16) ` {0..Suc n} = insert (of_nat (Suc n)) (of_nat ` {0..n})"
    by simp
  show ?thesis
    using c p im by (simp add: ReserveForPeer_def nextPeerID_def reservedUpTo_def)
qed

lemma run_reservedUpTo:
  "n \<le> 65534 \<Longrightarrow>
     runCalls newTxpoolIDs (map (Reserve \<circ> peerName) [1..<Suc n]) = Some (Inr (reservedUpTo n))"
proof (induction n)
  case 0
  then show ?case by (simp add: reservedUpTo_def newTxpoolIDs_def)
next
  case (Suc n)
  from Suc.prems have lt: "n < 65534" and le: "n \<le> 65534" by simp_all
  note ih = Suc.IH[OF le]
  have "[1..<Suc (Suc n)] = [1..<Suc n] @ [Suc n]" by simp
  then have "map (Reserve \<circ> peerName) [1..<Suc (Suc n)]
      = map (Reserve \<circ> peerName) [1..<Suc n] @ [Reserve (peerName (Suc n))]"
    by (simp only: map_append list.map comp_apply)
  then have "runCalls newTxpoolIDs (map (Reserve \<circ> peerName) [1..<Suc (Suc n)])
      = runCalls (reservedUpTo n) [Reserve (peerName (Suc n))]"
    by (simp only: runCalls_append ih option.case sum.case)
  also have "\<dots> = Some (Inr (reservedUpTo (Suc n)))"
    by (simp add: Reserve_reservedUpTo[OF lt])
  finally show ?case .
qed

text \<open>
  After 65534 peers have been reserved the identifier 65535 is free, and the next
  \<^verbatim>\<open>ReserveForPeer\<close> panics.
\<close>

theorem panic_with_one_nonzero_id_free_counterexample:
  "runCalls newTxpoolIDs (map (Reserve \<circ> peerName) [1..<65535]) = Some (Inr (reservedUpTo 65534))
   \<and> 65535 \<notin> activeIDs (reservedUpTo 65534)
   \<and> ReserveForPeer (reservedUpTo 65534) (peerName 65535) = Some (Inl (MaxActiveIDsPanic 65535))"
proof -
  have "Suc 65534 = 65535" by simp
  with run_reservedUpTo[of 65534]
  have 1: "runCalls newTxpoolIDs (map (Reserve \<circ> peerName) [1..<65535]) = Some (Inr (reservedUpTo 65534))"
    by simp
  have "(of_nat 65535 :: uint16) \<notin> of_nat ` {0..65534}"
    by (rule of_nat_notin_upto) simp_all
  then have 2: "65535 \<notin> activeIDs (reservedUpTo 65534)" by (simp add: reservedUpTo_def)
  have "card (activeIDs (reservedUpTo 65534)) = maxActiveIDs"
    using card_upto16[of 65534] by (simp add: reservedUpTo_def maxActiveIDs_def)
  then have 3: "ReserveForPeer (reservedUpTo 65534) (peerName 65535) = Some (Inl (MaxActiveIDsPanic 65535))"
    by (simp add: ReserveForPeer_def nextPeerID_panic) (simp add: maxActiveIDs_def)
  show ?thesis using 1 2 3 by simp
qed


section \<open>Decoding and receiving\<close>

text \<open>
  C4. A frame of exactly \<^verbatim>\<open>maxMsgSize\<close> = 1048576 bytes that the codec unmarshals to a
  \<^verbatim>\<open>TxMessage\<close> is decoded to that message; a frame of 1048577 bytes or more is
  refused with the size error whatever the codec would make of its content.
\<close>

theorem decodeMsg_max_size_boundary:
  "(length bz = 1048576 \<and> UnmarshalBinaryBare (cdc :: 'tx codec) bz = Inr (TxMessage t)
      \<longrightarrow> decodeMsg cdc bz = Inr (TxMessage t))
   \<and> (length big \<ge> 1048576 + 1
      \<longrightarrow> (\<forall>cdc' :: 'tx codec. decodeMsg cdc' big = Inl (MsgExceedsMaxSize (length big) 1048576)))"
  by (simp add: decodeMsg_def maxMsgSize_def)

theorem decodeMsg_max_size_boundary_witness:
  "length (replicate 1048576 (0 :: byte)) = 1048576
   \<and> UnmarshalBinaryBare \<lparr>MustMarshalBinaryBare = (\<lambda>m. []), UnmarshalBinaryBare = (\<lambda>b. Inr (TxMessage b))\<rparr>
        (replicate 1048576 (0 :: byte)) = Inr (TxMessage (replicate 1048576 (0 :: byte)))
   \<and> decodeMsg \<lparr>MustMarshalBinaryBare = (\<lambda>m. []), UnmarshalBinaryBare = (\<lambda>b. Inr (TxMessage b))\<rparr>
        (replicate 1048576 (0 :: byte)) = Inr (TxMessage (replicate 1048576 (0 :: byte)))
   \<and> length (replicate 1048577 (0 :: byte)) \<ge> 1048576 + 1
   \<and> decodeMsg \<lparr>MustMarshalBinaryBare = (\<lambda>m. []), UnmarshalBinaryBare = (\<lambda>b. Inr (TxMessage b))\<rparr>
        (replicate 1048577 (0 :: byte)) = Inl (MsgExceedsMaxSize 1048577 1048576)"
  using decodeMsg_max_size_boundary
    [of "replicate 1048576 (0 :: byte)"
        "\<lparr>MustMarshalBinaryBare = (\<lambda>m. []), UnmarshalBinaryBare = (\<lambda>b. Inr (TxMessage b))\<rparr>"
        "replicate 1048576 (0 :: byte)" "replicate 1048577 (0 :: byte)"]
  by simp



section \<open>The broadcast routine: height check and echo suppression\<close>

lemma sint_minus_one:
  fixes H :: int64
  assumes "- (2 ^ 63) < sint H"
  shows "sint (H - 1) = sint H - 1"
proof -
  have ub: "sint H < 2 ^ 63" using sint_lt[of H] by simp
  have "sint (H - 1) = signed_take_bit 63 (sint H - sint (1 :: int64))"
    by (simp add: sint_word_ariths)
  also have "\<dots> = signed_take_bit 63 (sint H - 1)" by simp
  also have "\<dots> = sint H - 1"
    using assms ub by (intro signed_take_bit_int_eq_self) simp_all
  finally show ?thesis .
qed

lemma lag_two:
  fixes h H :: int64
  assumes "sint H = sint h + 2"
  shows "sint (H - 1) = sint h + 1"
proof -
  have "- (2 ^ 63) \<le> sint h" using sint_ge[of h] by simp
  then have "- (2 ^ 63) < sint H" using assms by simp
  from sint_minus_one[OF this] assms show ?thesis by simp
qed

lemma examine_behind:
  assumes "peer_GetHeight a = Some h" "sint (height (Value a e)) = sint h + 2"
  shows "examine cdc peer peerID a e = ([Sleep peerCatchupSleepIntervalMS], Continue (Some e))"
  using assms lag_two[OF assms(2)] by (simp add: examine_def Let_def)

lemma iteration_examine:
  assumes "txR_IsRunning a" "peer_IsRunning a"
    "cur = Some e \<or> (cur = None \<and> select_TxsWait a = Ready (Some e))"
  shows "iteration cdc peer peerID a cur = examine cdc peer peerID a e"
  using assms by (auto simp: iteration_def)

text \<open>
  C5. In a pass in which the peer reports the height \<open>h\<close> and the entry at the cursor has
  the height \<open>h + 2\<close>, nothing is sent, the routine sleeps and the next pass starts with
  the same cursor. In a pass in which the peer reports at least \<open>h + 1\<close> the height
  check lets the entry through: unless the peer is among its senders, it is sent.
\<close>

theorem lagging_peer_is_not_sent_to_until_lag_at_most_one:
  assumes "txR_IsRunning a" "peer_IsRunning a"
    and "cur = Some e \<or> (cur = None \<and> select_TxsWait a = Ready (Some e))"
    and "peer_GetHeight a = Some h" "sint (height (Value a e)) = sint h + 2"
    and "txR_IsRunning a'" "peer_IsRunning a'"
    and "height (Value a' e) = height (Value a e)"
    and "peer_GetHeight a' = Some h'" "sint h + 1 \<le> sint h'"
  shows "iteration cdc peer peerID a cur = ([Sleep peerCatchupSleepIntervalMS], Continue (Some e))
       \<and> broadcastLoop cdc peer peerID cur (a # rest)
           = (case broadcastLoop cdc peer peerID (Some e) rest of
                (effs, st) \<Rightarrow> (Sleep peerCatchupSleepIntervalMS # effs, st))
       \<and> (peerID \<notin> senders (Value a' e) \<longrightarrow>
            (\<exists>ctl. iteration cdc peer peerID a' (Some e)
               = (Send peer TxpoolChannel (MustMarshalBinaryBare cdc (TxMessage (tx (Value a' e))))
                    # (if peer_Send a' TxpoolChannel (MustMarshalBinaryBare cdc (TxMessage (tx (Value a' e))))
                       then [] else [Sleep peerCatchupSleepIntervalMS]), ctl)))"
proof -
  have 1: "iteration cdc peer peerID a cur = ([Sleep peerCatchupSleepIntervalMS], Continue (Some e))"
    using iteration_examine[OF assms(1,2,3)] examine_behind[OF assms(4,5)] by simp
  then have 2: "broadcastLoop cdc peer peerID cur (a # rest)
           = (case broadcastLoop cdc peer peerID (Some e) rest of
                (effs, st) \<Rightarrow> (Sleep peerCatchupSleepIntervalMS # effs, st))"
    by (simp split: prod.splits)
  have "sint (height (Value a' e) - 1) = sint h + 1"
    using lag_two[OF assms(5)] assms(8) by simp
  then have g: "\<not> sint h' < sint (height (Value a' e) - 1)" using assms(10) by simp
  have "iteration cdc peer peerID a' (Some e) = examine cdc peer peerID a' e"
    using assms(6,7) by (simp add: iteration_def)
  then have 3: "peerID \<notin> senders (Value a' e) \<longrightarrow>
            (\<exists>ctl. iteration cdc peer peerID a' (Some e)
               = (Send peer TxpoolChannel (MustMarshalBinaryBare cdc (TxMessage (tx (Value a' e))))
                    # (if peer_Send a' TxpoolChannel (MustMarshalBinaryBare cdc (TxMessage (tx (Value a' e))))
                       then [] else [Sleep peerCatchupSleepIntervalMS]), ctl))"
    using g assms(9) by (simp add: examine_def Let_def)
  show ?thesis using 1 2 3 by blast
qed

lemma broadcastLoop_append:
  "broadcastLoop cdc peer peerID cur (xs @ ys) =
     (case broadcastLoop cdc peer peerID cur xs of
        (effs, Returned) \<Rightarrow> (effs, Returned)
      | (effs, Running n) \<Rightarrow>
          (case broadcastLoop cdc peer peerID n ys of (effs', st) \<Rightarrow> (effs @ effs', st)))"
proof (induction xs arbitrary: cur)
  case Nil
  then show ?case by (simp split: prod.splits)
next
  case (Cons a xs)
  show ?case
    by (simp add: Cons.IH split: prod.splits control.splits status.splits)
qed

lemma routine_extend:
  assumes "broadcastTxRoutine cdc txR peer pre = (effs, Running cur)"
  shows "broadcastTxRoutine cdc txR peer (pre @ ys) =
     (case broadcastLoop cdc peer (GetForPeer (ids txR) peer) cur ys of
        (effs', st) \<Rightarrow> (effs @ effs', st))"
proof -
  from assms have b: "Broadcast (config txR)"
    by (auto simp: broadcastTxRoutine_def split: if_splits)
  with assms have "broadcastLoop cdc peer (GetForPeer (ids txR) peer) None pre = (effs, Running cur)"
    by (simp add: broadcastTxRoutine_def)
  then show ?thesis using b by (simp add: broadcastTxRoutine_def broadcastLoop_append)
qed

lemma iteration_own_sender:
  assumes "cur = Some e \<or> (cur = None \<and> select_TxsWait a = Ready (Some e))"
    and "peerID \<in> senders (Value a e)"
  shows "iteration cdc peer peerID a cur =
     (if \<not> txR_IsRunning a \<or> \<not> peer_IsRunning a then ([], Return)
      else case peer_GetHeight a of
             None \<Rightarrow> ([Sleep peerCatchupSleepIntervalMS], Continue (Some e))
           | Some h \<Rightarrow>
               if sint h < sint (height (Value a e) - 1)
               then ([Sleep peerCatchupSleepIntervalMS], Continue (Some e))
               else ([], advance a))"
  using assms by (auto simp: iteration_def examine_def Let_def split: option.splits)

text \<open>
  C6. Take any point of a run of the routine for a peer, and a pass that looks at an
  entry whose senders contain the PeerID the registry gives for that peer. Whatever the
  collaborators answer in that pass, it sends nothing: it adds no effect or a single
  sleep to the trace, and after a sleep the cursor is still on the entry. When the pass
  reaches the sender check (all running, the peer's height known and not lagging) the
  routine goes on to the last select without an effect: the cursor of the next pass is
  the successor read after \<^verbatim>\<open>NextWaitChan\<close>, and the routine returns if a quit
  channel is selected.
\<close>

theorem own_sender_is_never_sent_and_cursor_advances:
  assumes "broadcastTxRoutine cdc txR peer pre = (effs, Running cur)"
    and "cur = Some e \<or> (cur = None \<and> select_TxsWait a = Ready (Some e))"
    and "GetForPeer (ids txR) peer \<in> senders (Value a e)"
  shows "(\<exists>effs_a st. broadcastTxRoutine cdc txR peer (pre @ [a]) = (effs @ effs_a, st)
            \<and> (effs_a = [] \<or> effs_a = [Sleep peerCatchupSleepIntervalMS])
            \<and> (effs_a = [Sleep peerCatchupSleepIntervalMS] \<longrightarrow> st = Running (Some e)))
       \<and> (txR_IsRunning a \<and> peer_IsRunning a
            \<and> (\<exists>h. peer_GetHeight a = Some h \<and> \<not> sint h < sint (height (Value a e) - 1)) \<longrightarrow>
             broadcastTxRoutine cdc txR peer (pre @ [a])
               = (effs, case select_NextWait a of
                          Ready n \<Rightarrow> Running n | PeerQuit \<Rightarrow> Returned | ReactorQuit \<Rightarrow> Returned)
           \<and> broadcastTxRoutine cdc txR peer (pre @ a # rest)
               = (case select_NextWait a of
                    Ready n \<Rightarrow>
                      (case broadcastLoop cdc peer (GetForPeer (ids txR) peer) n rest of
                         (effs', st) \<Rightarrow> (effs @ effs', st))
                  | PeerQuit \<Rightarrow> (effs, Returned)
                  | ReactorQuit \<Rightarrow> (effs, Returned)))"
proof -
  note it = iteration_own_sender[OF assms(2,3), of cdc peer]
  have 1: "\<exists>effs_a st. broadcastTxRoutine cdc txR peer (pre @ [a]) = (effs @ effs_a, st)
            \<and> (effs_a = [] \<or> effs_a = [Sleep peerCatchupSleepIntervalMS])
            \<and> (effs_a = [Sleep peerCatchupSleepIntervalMS] \<longrightarrow> st = Running (Some e))"
    unfolding routine_extend[OF assms(1)]
    by (auto simp: it advance_def split: option.splits selected.splits)
  have 2: "broadcastTxRoutine cdc txR peer (pre @ [a])
               = (effs, case select_NextWait a of
                          Ready n \<Rightarrow> Running n | PeerQuit \<Rightarrow> Returned | ReactorQuit \<Rightarrow> Returned)"
    if "txR_IsRunning a" "peer_IsRunning a" "peer_GetHeight a = Some h"
       "\<not> sint h < sint (height (Value a e) - 1)" for h
    unfolding routine_extend[OF assms(1)] using that
    by (simp add: it advance_def split: selected.splits)
  have 3: "broadcastTxRoutine cdc txR peer (pre @ a # rest)
               = (case select_NextWait a of
                    Ready n \<Rightarrow>
                      (case broadcastLoop cdc peer (GetForPeer (ids txR) peer) n rest of
                         (effs', st) \<Rightarrow> (effs @ effs', st))
                  | PeerQuit \<Rightarrow> (effs, Returned)
                  | ReactorQuit \<Rightarrow> (effs, Returned))"
    if "txR_IsRunning a" "peer_IsRunning a" "peer_GetHeight a = Some h"
       "\<not> sint h < sint (height (Value a e) - 1)" for h
    unfolding routine_extend[OF assms(1)] using that
    by (simp add: it advance_def split: selected.splits prod.splits)
  show ?thesis using 1 2 3 by blast
qed

text \<open>
  C10. With \<^verbatim>\<open>Broadcast\<close> false the broadcast routine returns at once, whatever the
  pool and the peer would answer, without any effect; \<^verbatim>\<open>AddPeer\<close> still reserves a
  PeerID and \<^verbatim>\<open>Receive\<close> does what it does with \<^verbatim>\<open>Broadcast\<close> true.
\<close>

theorem broadcast_disabled_routine_returns_at_once:
  assumes "\<not> Broadcast (config txR)"
  shows "broadcastTxRoutine (cdc :: 'tx codec) txR peer rest = ([], Returned)
       \<and> (\<forall>ids'. ReserveForPeer (ids txR) peer = Some (Inr ids') \<longrightarrow>
             (AddPeer txR peer :: (panic + 'tx effect list \<times> TxpoolReactor) option)
               = Some (Inr ([Go_broadcastTxRoutine peer], txR\<lparr>ids := ids'\<rparr>)))
       \<and> fst (Receive cdc pool txR chID src bz)
           = fst (Receive cdc pool (txR\<lparr>config := \<lparr>Broadcast = True\<rparr>\<rparr>) chID src bz)
       \<and> snd (Receive cdc pool txR chID src bz) = txR"
  using assms
  by (auto simp: broadcastTxRoutine_def AddPeer_def Receive_def Let_def
      split: sum.splits TxpoolMessage.splits option.splits)

theorem lagging_peer_is_not_sent_to_until_lag_at_most_one_witness:
  "sint (height (Value (demoAnswers 5) (0 :: nat))) = sint (5 :: int64) + 2
   \<and> sint (5 :: int64) + 1 \<le> sint (6 :: int64)
   \<and> (2 :: uint16) \<notin> senders (Value (demoAnswers 6) (0 :: nat))
   \<and> iteration demoCodec ''b'' 2 (demoAnswers 5) (Some 0)
       = ([Sleep 100], Continue (Some 0))
   \<and> broadcastLoop demoCodec ''b'' 2 (Some 0) [demoAnswers 5] = ([Sleep 100], Running (Some 0))
   \<and> (\<exists>ctl. iteration demoCodec ''b'' 2 (demoAnswers 6) (Some 0)
               = ([Send ''b'' 0x31 [1]], ctl))"
  using lagging_peer_is_not_sent_to_until_lag_at_most_one
    [where a = "demoAnswers 5" and cur = "Some 0" and e = 0 and h = 5 and a' = "demoAnswers 6"
       and h' = 6 and peerID = 2 and cdc = demoCodec and peer = "''b''" and rest = "[]"]
  by (simp add: demoAnswers_def demoCodec_def peerCatchupSleepIntervalMS_def TxpoolChannel_def)

theorem own_sender_is_never_sent_and_cursor_advances_witness:
  "broadcastTxRoutine demoCodec (demoReactor True) ''a'' [] = ([], Running (None :: nat option))
   \<and> select_TxsWait (demoAnswers 6) = Ready (Some 0)
   \<and> GetForPeer (ids (demoReactor True)) ''a'' \<in> senders (Value (demoAnswers 6) (0 :: nat))
   \<and> txR_IsRunning (demoAnswers 6) \<and> peer_IsRunning (demoAnswers 6)
   \<and> peer_GetHeight (demoAnswers 6) = Some 6
   \<and> \<not> sint (6 :: int64) < sint (height (Value (demoAnswers 6) (0 :: nat)) - 1)
   \<and> broadcastTxRoutine demoCodec (demoReactor True) ''a'' [demoAnswers 6] = ([], Running (Some 1))
   \<and> broadcastTxRoutine demoCodec (demoReactor True) ''a'' [demoAnswers 6, demoAnswers 6]
       = ([], Running (Some 1))"
  using own_sender_is_never_sent_and_cursor_advances
    [where cdc = demoCodec and txR = "demoReactor True" and peer = "''a''" and pre = "[]"
       and effs = "[]" and cur = None and e = 0 and a = "demoAnswers 6" and rest = "[demoAnswers 6]"]
  by (simp add: demoAnswers_def demoReactor_def GetForPeer_def broadcastTxRoutine_def
      iteration_def examine_def advance_def Let_def)

theorem broadcast_disabled_routine_returns_at_once_witness:
  "\<not> Broadcast (config (demoReactor False))
   \<and> broadcastTxRoutine demoCodec (demoReactor False) ''b'' [demoAnswers 6, demoAnswers 6] = ([], Returned)
   \<and> ReserveForPeer (ids (demoReactor False)) ''b''
       = Some (Inr \<lparr>peerMap = [''a'' \<mapsto> 1, ''b'' \<mapsto> 2], nextID = 3, activeIDs = {0, 1, 2}\<rparr>)
   \<and> (AddPeer (demoReactor False) ''b'' :: (panic + byte list effect list \<times> TxpoolReactor) option)
       = Some (Inr ([Go_broadcastTxRoutine ''b''],
            \<lparr>config = \<lparr>Broadcast = False\<rparr>,
             ids = \<lparr>peerMap = [''a'' \<mapsto> 1, ''b'' \<mapsto> 2], nextID = 3, activeIDs = {0, 1, 2}\<rparr>\<rparr>))
   \<and> Receive demoCodec demoPool (demoReactor False) TxpoolChannel ''a'' [1]
       = ([Logger_Debug ''Receive'', CheckTxWithInfo [1] 1], demoReactor False)"
proof -
  have r: "ReserveForPeer (ids (demoReactor False)) ''b''
       = Some (Inr \<lparr>peerMap = [''a'' \<mapsto> 1, ''b'' \<mapsto> 2], nextID = 3, activeIDs = {0, 1, 2}\<rparr>)"
    by (simp add: demoReactor_def ReserveForPeer_def nextPeerID_def maxActiveIDs_def
        probe_in probe_notin insert_commute)
  have rc: "Receive demoCodec demoPool (demoReactor True) TxpoolChannel ''a'' [1]
       = ([Logger_Debug ''Receive'', CheckTxWithInfo [1] 1], demoReactor True)"
    by (simp add: Receive_def demoCodec_def demoPool_def demoReactor_def decodeMsg_def
        maxMsgSize_def GetForPeer_def)
  have t: "demoReactor False\<lparr>config := \<lparr>Broadcast = True\<rparr>\<rparr> = demoReactor True"
    by (simp add: demoReactor_def)
  have nb: "\<not> Broadcast (config (demoReactor False))" by (simp add: demoReactor_def)
  note inst = broadcast_disabled_routine_returns_at_once
    [OF nb, where cdc = demoCodec and peer = "''b''" and rest = "[demoAnswers 6, demoAnswers 6]"
       and pool = demoPool and chID = TxpoolChannel and src = "''a''" and bz = "[1]"]
  from inst have 1: "broadcastTxRoutine demoCodec (demoReactor False) ''b'' [demoAnswers 6, demoAnswers 6] = ([], Returned)"
    by blast
  from inst r have 2: "(AddPeer (demoReactor False) ''b'' :: (panic + byte list effect list \<times> TxpoolReactor) option)
       = Some (Inr ([Go_broadcastTxRoutine ''b''],
            \<lparr>config = \<lparr>Broadcast = False\<rparr>,
             ids = \<lparr>peerMap = [''a'' \<mapsto> 1, ''b'' \<mapsto> 2], nextID = 3, activeIDs = {0, 1, 2}\<rparr>\<rparr>))"
    by (simp add: demoReactor_def)
  from inst rc t have 3: "Receive demoCodec demoPool (demoReactor False) TxpoolChannel ''a'' [1]
       = ([Logger_Debug ''Receive'', CheckTxWithInfo [1] 1], demoReactor False)"
    by (simp add: prod_eq_iff)
  show ?thesis using nb r 1 2 3 by blast
qed

end
